theory Spec2Isabelle
  imports Complex_Main "HOL-Library.Word"
begin

unbundle bit_operations_syntax

section \<open>Python values used by \<open>byteplus/core/http_caller.py\<close>\<close>

text \<open>
  A Python \<open>bytes\<close> object is a list of octets. A Python \<open>str\<close> is a sequence of Unicode
  code points, here a list of natural numbers; \<open>ascii\<close> embeds the ASCII literals of the
  source.
\<close>

type_synonym byte = "8 word"
type_synonym bytes = "byte list"
type_synonym pystr = "nat list"

definition ascii :: "string \<Rightarrow> pystr" where
  "ascii s = map of_char s"

datatype pyexn =
    NetException pystr
  | BizException pystr
  | UnicodeEncodeError
  | ValueError
  | IndexError

subsection \<open>\<open>str.encode('utf-8')\<close>\<close>

text \<open>
  The codec writes one to four octets for a code point and raises \<open>UnicodeEncodeError\<close> on
  a surrogate (U+D800 to U+DFFF). Code points end at U+10FFFF; a number beyond that is
  no character of a \<open>str\<close> and is refused as well.
\<close>

definition utf8_char :: "nat \<Rightarrow> pyexn + bytes" where
  "utf8_char c =
     (if c < 0x80 then Inr [of_nat c]
      else if c < 0x800 then Inr [of_nat (0xC0 + c div 64), of_nat (0x80 + c mod 64)]
      else if 0xD800 \<le> c \<and> c < 0xE000 then Inl UnicodeEncodeError
      else if c < 0x10000 then
        Inr [of_nat (0xE0 + c div 4096), of_nat (0x80 + c div 64 mod 64), of_nat (0x80 + c mod 64)]
      else if c < 0x110000 then
        Inr [of_nat (0xF0 + c div 262144), of_nat (0x80 + c div 4096 mod 64),
             of_nat (0x80 + c div 64 mod 64), of_nat (0x80 + c mod 64)]
      else Inl UnicodeEncodeError)"

fun encode_utf8 :: "pystr \<Rightarrow> pyexn + bytes" where
  "encode_utf8 [] = Inr []"
| "encode_utf8 (c # cs) =
     (case utf8_char c of
        Inl e \<Rightarrow> Inl e
      | Inr b \<Rightarrow> (case encode_utf8 cs of Inl e \<Rightarrow> Inl e | Inr bs \<Rightarrow> Inr (b @ bs)))"

text \<open>The strings the codec accepts: those made of Unicode scalar values.\<close>

definition is_scalar_value :: "nat \<Rightarrow> bool" where
  "is_scalar_value c \<longleftrightarrow> c < 0xD800 \<or> (0xE000 \<le> c \<and> c < 0x110000)"

definition encodable :: "pystr \<Rightarrow> bool" where
  "encodable s = list_all is_scalar_value s"

section \<open>\<open>hashlib.sha256\<close>\<close>

text \<open>
  The hash object of \<open>hashlib\<close> is modelled as the streaming implementation of FIPS 180-4:
  it keeps the eight chaining words, the octets of the block not yet complete and the
  number of octets fed so far. \<open>sha256\<close> is the one-shot function of the standard, on the
  whole padded message.
\<close>

type_synonym w32 = "32 word"

text \<open>
  The round constants \<open>K256\<close> are the first 32 bits of the fractional parts of the cube
  roots of the first 64 primes, \<open>H256\<close> those of the square roots of the first 8.
\<close>

definition rotr :: "nat \<Rightarrow> w32 \<Rightarrow> w32" where
  "rotr n x = drop_bit n x OR push_bit (32 - n) x"

definition Ch :: "w32 \<Rightarrow> w32 \<Rightarrow> w32 \<Rightarrow> w32" where
  "Ch x y z = (x AND y) XOR (NOT x AND z)"

definition Maj :: "w32 \<Rightarrow> w32 \<Rightarrow> w32 \<Rightarrow> w32" where
  "Maj x y z = (x AND y) XOR (x AND z) XOR (y AND z)"

definition Sigma0 :: "w32 \<Rightarrow> w32" where
  "Sigma0 x = rotr 2 x XOR rotr 13 x XOR rotr 22 x"

definition Sigma1 :: "w32 \<Rightarrow> w32" where
  "Sigma1 x = rotr 6 x XOR rotr 11 x XOR rotr 25 x"

definition sigma0 :: "w32 \<Rightarrow> w32" where
  "sigma0 x = rotr 7 x XOR rotr 18 x XOR drop_bit 3 x"

definition sigma1 :: "w32 \<Rightarrow> w32" where
  "sigma1 x = rotr 17 x XOR rotr 19 x XOR drop_bit 10 x"

definition K256 :: "w32 list" where
  "K256 =
    [1116352408, 1899447441, 3049323471, 3921009573, 961987163, 1508970993,
     2453635748, 2870763221, 3624381080, 310598401, 607225278, 1426881987,
     1925078388, 2162078206, 2614888103, 3248222580, 3835390401, 4022224774,
     264347078, 604807628, 770255983, 1249150122, 1555081692, 1996064986,
     2554220882, 2821834349, 2952996808, 3210313671, 3336571891, 3584528711,
     113926993, 338241895, 666307205, 773529912, 1294757372, 1396182291,
     1695183700, 1986661051, 2177026350, 2456956037, 2730485921, 2820302411,
     3259730800, 3345764771, 3516065817, 3600352804, 4094571909, 275423344,
     430227734, 506948616, 659060556, 883997877, 958139571, 1322822218,
     1537002063, 1747873779, 1955562222, 2024104815, 2227730452, 2361852424,
     2428436474, 2756734187, 3204031479, 3329325298]"

definition H256 :: "w32 list" where
  "H256 = [0x6a09e667, 0xbb67ae85, 0x3c6ef372, 0xa54ff53a,
           0x510e527f, 0x9b05688c, 0x1f83d9ab, 0x5be0cd19]"

fun be_words :: "bytes \<Rightarrow> w32 list" where
  "be_words (a # b # c # d # r) =
     (push_bit 24 (ucast a) OR push_bit 16 (ucast b) OR push_bit 8 (ucast c) OR ucast d) # be_words r"
| "be_words _ = []"

definition be_bytes :: "w32 \<Rightarrow> bytes" where
  "be_bytes x = [ucast (drop_bit 24 x), ucast (drop_bit 16 x), ucast (drop_bit 8 x), ucast x]"

fun schedule :: "nat \<Rightarrow> w32 list \<Rightarrow> w32 list" where
  "schedule 0 w = w"
| "schedule (Suc n) w =
     (let t = length w
      in schedule n (w @ [sigma1 (w ! (t - 2)) + w ! (t - 7) + sigma0 (w ! (t - 15)) + w ! (t - 16)]))"

definition round1 :: "w32 list \<Rightarrow> w32 \<times> w32 \<Rightarrow> w32 list" where
  "round1 v kw =
     (let a = v ! 0; b = v ! 1; c = v ! 2; d = v ! 3; e = v ! 4; f = v ! 5; g = v ! 6; h = v ! 7;
          t1 = h + Sigma1 e + Ch e f g + fst kw + snd kw;
          t2 = Sigma0 a + Maj a b c
      in [t1 + t2, a, b, c, d + t1, e, f, g])"

definition rounds :: "w32 list \<Rightarrow> w32 list \<Rightarrow> w32 list" where
  "rounds ws v = foldl round1 v (zip K256 ws)"

definition compress :: "w32 list \<Rightarrow> bytes \<Rightarrow> w32 list" where
  "compress hs block = map2 (+) hs (rounds (schedule 48 (be_words block)) hs)"

function blocks :: "bytes \<Rightarrow> bytes list" where
  "blocks m = (if length m < 64 then [] else take 64 m # blocks (drop 64 m))"
  by pat_completeness auto
termination
  by (relation "measure length") auto

declare blocks.simps [simp del]

definition be64 :: "64 word \<Rightarrow> bytes" where
  "be64 x = map (\<lambda>i. ucast (drop_bit (8 * (7 - i)) x)) [0..<8]"

definition padding :: "nat \<Rightarrow> bytes" where
  "padding len = 0x80 # replicate ((119 - len mod 64) mod 64) 0 @ be64 (of_nat (8 * len))"

definition sha256 :: "bytes \<Rightarrow> bytes" where
  "sha256 m = concat (map be_bytes (foldl compress H256 (blocks (m @ padding (length m)))))"

record sha256_object =
  chain :: "w32 list"
  pending :: bytes
  fed :: nat

definition sha256_new :: sha256_object where
  "sha256_new = \<lparr>chain = H256, pending = [], fed = 0\<rparr>"

definition update :: "sha256_object \<Rightarrow> bytes \<Rightarrow> sha256_object" where
  "update h data =
     (let buf = pending h @ data;
          whole = 64 * (length buf div 64)
      in \<lparr>chain = foldl compress (chain h) (blocks (take whole buf)),
          pending = drop whole buf,
          fed = fed h + length data\<rparr>)"

definition digest :: "sha256_object \<Rightarrow> bytes" where
  "digest h = concat (map be_bytes (foldl compress (chain h) (blocks (pending h @ padding (fed h)))))"

text \<open>
  The invariant of the hash object: \<open>absorbed h m\<close> says that \<open>h\<close> is the object after the
  octets \<open>m\<close> have been fed to it, in any number of \<open>update\<close> calls.
\<close>

definition absorbed :: "sha256_object \<Rightarrow> bytes \<Rightarrow> bool" where
  "absorbed h m \<longleftrightarrow>
     chain h = foldl compress H256 (blocks (take (64 * (length m div 64)) m)) \<and>
     pending h = drop (64 * (length m div 64)) m \<and> fed h = length m"

definition hex_digit :: "nat \<Rightarrow> nat" where
  "hex_digit d = (if d < 10 then 48 + d else 87 + d)"

definition hex_byte :: "byte \<Rightarrow> pystr" where
  "hex_byte b = [hex_digit (unat b div 16), hex_digit (unat b mod 16)]"

definition hex_of_bytes :: "bytes \<Rightarrow> pystr" where
  "hex_of_bytes bs = concat (map hex_byte bs)"

definition hexdigest :: "sha256_object \<Rightarrow> pystr" where
  "hexdigest h = hex_of_bytes (digest h)"

section \<open>Other library functions the caller uses\<close>

subsection \<open>\<open>str(int)\<close> and \<open>int(float)\<close>\<close>

function str_nat :: "nat \<Rightarrow> pystr" where
  "str_nat n = (if n < 10 then [48 + n] else str_nat (n div 10) @ [48 + n mod 10])"
  by pat_completeness auto
termination
  by (relation "measure id") auto

declare str_nat.simps [simp del]

definition str_int :: "int \<Rightarrow> pystr" where
  "str_int i = (if i < 0 then 45 # str_nat (nat (- i)) else str_nat (nat i))"

text \<open>
  \<open>time.time()\<close> returns a finite float, which is a real number; \<open>int\<close> of a float drops
  the fraction (rounds towards zero).
\<close>

definition int_of_float :: "real \<Rightarrow> int" where
  "int_of_float x = (if 0 \<le> x then \<lfloor>x\<rfloor> else \<lceil>x\<rceil>)"

text \<open>The value a string of decimal digits denotes, to state what \<open>str_int\<close> renders.\<close>

definition is_digit :: "nat \<Rightarrow> bool" where
  "is_digit c \<longleftrightarrow> 48 \<le> c \<and> c \<le> 57"

definition decimal_value :: "pystr \<Rightarrow> nat" where
  "decimal_value ds = foldl (\<lambda>a d. 10 * a + (d - 48)) 0 ds"

definition int_of_str :: "pystr \<Rightarrow> int" where
  "int_of_str s = (case s of [] \<Rightarrow> 0 | c # ds \<Rightarrow> if c = 45 then - int (decimal_value ds) else int (decimal_value s))"

subsection \<open>\<open>str(uuid.UUID)\<close>\<close>

text \<open>
  A UUID is a 128-bit integer; \<open>str\<close> prints its 32 hexadecimal digits in groups of
  8, 4, 4, 4 and 12 joined by hyphens.
\<close>

definition be128 :: "128 word \<Rightarrow> bytes" where
  "be128 x = map (\<lambda>i. ucast (drop_bit (8 * (15 - i)) x)) [0..<16]"

definition str_uuid :: "128 word \<Rightarrow> pystr" where
  "str_uuid u =
     (let hex = hex_of_bytes (be128 u)
      in take 8 hex @ [45] @ take 4 (drop 8 hex) @ [45] @ take 4 (drop 12 hex) @ [45] @
         take 4 (drop 16 hex) @ [45] @ drop 20 hex)"

subsection \<open>\<open>random.sample\<close>\<close>

text \<open>
  CPython's \<open>random.sample(population, k)\<close> raises \<open>ValueError\<close> when \<open>k\<close> exceeds the
  population and otherwise selects without replacement: it copies the population into a
  pool and, for \<open>i = 0, ..., k - 1\<close>, takes \<open>pool[j]\<close> for \<open>j = randbelow(n - i)\<close> and moves
  \<open>pool[n - i - 1]\<close> into the vacancy. (For populations much larger than \<open>k\<close> CPython keeps
  a set of chosen indices instead of the pool; for the 62 symbols and \<open>k = 8\<close> of the caller
  it is the pool.) The \<open>i\<close>-th call of \<open>randbelow\<close> returns a number below its bound,
  taken here from the \<open>i\<close>-th value \<open>rng i\<close> of the random source.
\<close>

definition randbelow :: "(nat \<Rightarrow> nat) \<Rightarrow> nat \<Rightarrow> nat \<Rightarrow> nat" where
  "randbelow rng i bound = rng i mod bound"

fun sample_pool :: "(nat \<Rightarrow> nat) \<Rightarrow> 'a list \<Rightarrow> nat \<Rightarrow> nat \<Rightarrow> nat \<Rightarrow> 'a list" where
  "sample_pool rng pool n i 0 = []"
| "sample_pool rng pool n i (Suc k) =
     (let j = randbelow rng i (n - i)
      in pool ! j # sample_pool rng (pool[j := pool ! (n - i - 1)]) n (Suc i) k)"

definition sample :: "(nat \<Rightarrow> nat) \<Rightarrow> 'a list \<Rightarrow> nat \<Rightarrow> pyexn + 'a list" where
  "sample rng population k =
     (let n = length population
      in if n < k then Inl ValueError else Inr (sample_pool rng population n 0 k))"

definition ascii_lowercase :: pystr where
  "ascii_lowercase = ascii ''abcdefghijklmnopqrstuvwxyz''"

definition ascii_uppercase :: pystr where
  "ascii_uppercase = ascii ''ABCDEFGHIJKLMNOPQRSTUVWXYZ''"

definition ascii_letters :: pystr where
  "ascii_letters = ascii_lowercase @ ascii_uppercase"

definition digits :: pystr where
  "digits = ascii ''0123456789''"

text \<open>\<open>''.join(xs)\<close> for a list of strings.\<close>

definition join :: "pystr list \<Rightarrow> pystr" where
  "join xs = concat xs"

text \<open>The alphabet \<open>[A-Za-z0-9]\<close> of the specification.\<close>

definition is_alnum :: "nat \<Rightarrow> bool" where
  "is_alnum c \<longleftrightarrow> (65 \<le> c \<and> c \<le> 90) \<or> (97 \<le> c \<and> c \<le> 122) \<or> (48 \<le> c \<and> c \<le> 57)"

text \<open>The lowercase hexadecimal digits.\<close>

definition is_lower_hex :: "nat \<Rightarrow> bool" where
  "is_lower_hex c \<longleftrightarrow> (48 \<le> c \<and> c \<le> 57) \<or> (97 \<le> c \<and> c \<le> 102)"

subsection \<open>\<open>sub in s\<close>, \<open>str.lower\<close> and \<open>str.format\<close>\<close>

fun contains :: "pystr \<Rightarrow> pystr \<Rightarrow> bool" where
  "contains sub [] = (sub = [])"
| "contains sub (c # cs) = (take (length sub) (c # cs) = sub \<or> contains sub cs)"

text \<open>
  \<open>str.lower\<close> maps \<open>A\<close> to \<open>Z\<close> onto \<open>a\<close> to \<open>z\<close> in an ASCII string; for any other string
  the result comes from the Unicode character database, a parameter here.
\<close>

definition ascii_lower :: "nat \<Rightarrow> nat" where
  "ascii_lower c = (if 65 \<le> c \<and> c \<le> 90 then c + 32 else c)"

definition lower :: "(pystr \<Rightarrow> pystr) \<Rightarrow> pystr \<Rightarrow> pystr" where
  "lower unicode_lower s = (if list_all (\<lambda>c. c < 128) s then map ascii_lower s else unicode_lower s)"

text \<open>
  \<open>template.format(*args)\<close>, for templates made of literal text, the doubled braces
  \<open>{{\<close> and \<open>}}\<close>, and automatic fields \<open>{}\<close>; \<open>args\<close> are the arguments as \<open>str\<close> renders
  them. Arguments left over are ignored, as Python does. Fields with a name, an index or
  a format specification are outside this fragment and answered with \<open>ValueError\<close>; the
  source has none. A \<open>%\<close> is literal text to \<open>format\<close>.
\<close>

fun format :: "pystr \<Rightarrow> pystr list \<Rightarrow> pyexn + pystr" where
  "format [] args = Inr []"
| "format [c] args = (if c = 123 \<or> c = 125 then Inl ValueError else Inr [c])"
| "format (c # d # cs) args =
     (if c = 123 \<and> d = 123 then map_sum id ((#) 123) (format cs args)
      else if c = 125 \<and> d = 125 then map_sum id ((#) 125) (format cs args)
      else if c = 123 \<and> d = 125 then
        (case args of [] \<Rightarrow> Inl IndexError | a # as \<Rightarrow> map_sum id ((@) a) (format cs as))
      else if c = 123 \<or> c = 125 then Inl ValueError
      else map_sum id ((#) c) (format (d # cs) args))"

subsection \<open>\<open>datetime.timedelta\<close>\<close>

text \<open>A duration, in microseconds; \<open>total_seconds\<close> is its length in seconds.\<close>

type_synonym timedelta = int

definition total_seconds :: "timedelta \<Rightarrow> real" where
  "total_seconds td = of_int td / 1000000"

section \<open>The data model\<close>

text \<open>
  Modelled from the spec: \<open>byteplus.core.context.Context\<close>, the identity used for
  signing, with its attributes \<open>tenant_id\<close> and \<open>token\<close>.
\<close>

record "context" =
  tenant_id :: pystr
  token :: pystr

text \<open>A context whose token and tenant id can be encoded, so that requests can be signed.\<close>

definition signable :: "context \<Rightarrow> bool" where
  "signable ctx \<longleftrightarrow> encodable (token ctx) \<and> encodable (tenant_id ctx)"

text \<open>
  Modelled from the spec: \<open>byteplus.core.options._Options\<close>, the per-call configuration
  with an optional request id and an optional timeout, and \<open>byteplus.core.option.Option\<close>
  with \<open>conv_to_options\<close>, which resolves the options of a call starting from no request
  id and no timeout.
\<close>

record options =
  request_id :: "pystr option"
  timeout :: "timedelta option"

datatype call_option = with_request_id pystr | with_timeout timedelta

fun fill :: "options \<Rightarrow> call_option \<Rightarrow> options" where
  "fill options (with_request_id r) = options\<lparr>request_id := Some r\<rparr>"
| "fill options (with_timeout t) = options\<lparr>timeout := Some t\<rparr>"

definition conv_to_options :: "call_option list \<Rightarrow> options" where
  "conv_to_options opts = foldl fill \<lparr>request_id = None, timeout = None\<rparr> opts"

text \<open>The arguments of one \<open>requests.post\<close> and the fields of a \<open>requests.Response\<close> read by the caller.\<close>

record http_call =
  call_url :: pystr
  call_headers :: "pystr \<rightharpoonup> pystr"
  call_data :: bytes
  call_timeout :: "real option"

record http_response =
  status_code :: int
  reason :: pystr
  content :: "bytes option"

text \<open>
  Everything outside the caller: the protocol-buffer messages (\<open>SerializeToString\<close>;
  \<open>ParseFromString\<close>, which returns the message as it leaves it and the text of the
  exception it raised, if any), \<open>gzip.compress\<close>, the clock read by \<open>time.time()\<close> for the
  timestamp, the integer of \<open>uuid.uuid1()\<close>, the random source, \<open>requests.post\<close> (the
  response, or \<open>str(e)\<close> of the exception \<open>e\<close> it raised) and the Unicode part of
  \<open>str.lower\<close>.
\<close>

record ('req, 'rsp) world =
  SerializeToString :: "'req \<Rightarrow> bytes"
  ParseFromString :: "'rsp \<Rightarrow> bytes \<Rightarrow> pystr option \<times> 'rsp"
  gzip_compress :: "bytes \<Rightarrow> bytes"
  time_time :: real
  uuid1 :: "128 word"
  entropy :: "nat \<Rightarrow> nat"
  requests_post :: "http_call \<Rightarrow> pystr + http_response"
  unicode_lower :: "pystr \<Rightarrow> pystr"

text \<open>
  What a call of \<open>do_request\<close> leaves behind: the exception it raised, if any, the
  response message of the caller, and the HTTP requests it sent.
\<close>

record 'rsp outcome =
  raised :: "pyexn option"
  response_message :: 'rsp
  sent :: "http_call list"

section \<open>\<open>HttpCaller\<close>\<close>

text \<open>
  The methods take the \<open>Context\<close> of the caller (\<open>self._context\<close>) and the world as
  arguments. Logging has no effect on results or control flow and is left out, with the
  two clock readings that only measure the duration for the debug log and with
  \<open>_log_rsp\<close>, which only logs. \<open>do_http_request\<close> returns, next to its result, the
  arguments of the \<open>requests.post\<close> it made.
\<close>

definition SUCCESS_HTTP_CODE :: int where
  "SUCCESS_HTTP_CODE = 200"

definition cal_signature :: "context \<Rightarrow> bytes \<Rightarrow> pystr \<Rightarrow> pystr \<Rightarrow> pyexn + pystr" where
  "cal_signature ctx req_bytes ts nonce =
     (let sha256 = sha256_new
      in case encode_utf8 (token ctx) of
           Inl e \<Rightarrow> Inl e
         | Inr b1 \<Rightarrow>
            (let sha256 = update sha256 b1;
                 sha256 = update sha256 req_bytes
             in case encode_utf8 (tenant_id ctx) of
                  Inl e \<Rightarrow> Inl e
                | Inr b3 \<Rightarrow>
                   (let sha256 = update sha256 b3
                    in case encode_utf8 ts of
                         Inl e \<Rightarrow> Inl e
                       | Inr b4 \<Rightarrow>
                          (let sha256 = update sha256 b4
                           in case encode_utf8 nonce of
                                Inl e \<Rightarrow> Inl e
                              | Inr b5 \<Rightarrow>
                                 (let sha256 = update sha256 b5
                                  in Inr (hexdigest sha256))))))"

definition with_auth_headers ::
  "context \<Rightarrow> ('req, 'rsp) world \<Rightarrow> (pystr \<rightharpoonup> pystr) \<Rightarrow> bytes \<Rightarrow> pyexn + (pystr \<rightharpoonup> pystr)" where
  "with_auth_headers ctx w headers req_bytes =
     (let ts = str_int (int_of_float (time_time w))
      in case sample (entropy w) (ascii_letters @ digits) 8 of
           Inl e \<Rightarrow> Inl e
         | Inr chosen \<Rightarrow>
            (let nonce = join (map (\<lambda>c. [c]) chosen)
             in case cal_signature ctx req_bytes ts nonce of
                  Inl e \<Rightarrow> Inl e
                | Inr signature \<Rightarrow>
                   (let headers = headers(ascii ''Tenant-Id'' \<mapsto> tenant_id ctx);
                        headers = headers(ascii ''Tenant-Ts'' \<mapsto> ts);
                        headers = headers(ascii ''Tenant-Nonce'' \<mapsto> nonce);
                        headers = headers(ascii ''Tenant-Signature'' \<mapsto> signature)
                    in Inr headers)))"

definition build_headers ::
  "context \<Rightarrow> ('req, 'rsp) world \<Rightarrow> options \<Rightarrow> bytes \<Rightarrow> pyexn + (pystr \<rightharpoonup> pystr)" where
  "build_headers ctx w options req_bytes =
     (let headers =
            [ascii ''Content-Encoding'' \<mapsto> ascii ''gzip'',
             ascii ''Accept-Encoding'' \<mapsto> ascii ''gzip'',
             ascii ''Content-Type'' \<mapsto> ascii ''application/x-protobuf'',
             ascii ''Accept'' \<mapsto> ascii ''application/x-protobuf''];
          headers =
            (case request_id options of
               Some r \<Rightarrow>
                 if length r > 0 then headers(ascii ''Request-Id'' \<mapsto> r)
                 else headers(ascii ''Request-Id'' \<mapsto> str_uuid (uuid1 w))
             | None \<Rightarrow> headers(ascii ''Request-Id'' \<mapsto> str_uuid (uuid1 w)))
      in with_auth_headers ctx w headers req_bytes)"

definition do_http_request ::
  "('req, 'rsp) world \<Rightarrow> pystr \<Rightarrow> (pystr \<rightharpoonup> pystr) \<Rightarrow> bytes \<Rightarrow> timedelta option
     \<Rightarrow> (pyexn + bytes option) \<times> http_call" where
  "do_http_request w url headers req_bytes timeout' =
     (let call =
            (case timeout' of
               Some t \<Rightarrow>
                 \<lparr>call_url = url, call_headers = headers, call_data = req_bytes,
                  call_timeout = Some (total_seconds t)\<rparr>
             | None \<Rightarrow>
                 \<lparr>call_url = url, call_headers = headers, call_data = req_bytes,
                  call_timeout = None\<rparr>)
      in case requests_post w call of
           Inl e \<Rightarrow>
             if contains (ascii ''timeout'') (lower (unicode_lower w) e)
             then (Inl (NetException e), call)
             else (Inl (BizException e), call)
         | Inr rsp \<Rightarrow>
             if status_code rsp \<noteq> SUCCESS_HTTP_CODE then
               (case format (ascii ''code:%d msg:%s'') [str_int (status_code rsp), reason rsp] of
                  Inl e \<Rightarrow> (Inl e, call)
                | Inr msg \<Rightarrow> (Inl (NetException msg), call))
             else (Inr (content rsp), call))"

definition do_request ::
  "context \<Rightarrow> ('req, 'rsp) world \<Rightarrow> pystr \<Rightarrow> 'req \<Rightarrow> 'rsp \<Rightarrow> call_option list \<Rightarrow> 'rsp outcome" where
  "do_request ctx w url request response opts =
     (let req_bytes = gzip_compress w (SerializeToString w request);
          options = conv_to_options opts
      in case build_headers ctx w options req_bytes of
           Inl e \<Rightarrow> \<lparr>raised = Some e, response_message = response, sent = []\<rparr>
         | Inr headers \<Rightarrow>
             (case do_http_request w url headers req_bytes (timeout options) of
                (Inl e, call) \<Rightarrow> \<lparr>raised = Some e, response_message = response, sent = [call]\<rparr>
              | (Inr None, call) \<Rightarrow> \<lparr>raised = None, response_message = response, sent = [call]\<rparr>
              | (Inr (Some rsp_bytes), call) \<Rightarrow>
                  (case ParseFromString w response rsp_bytes of
                     (Some e, response') \<Rightarrow>
                       \<lparr>raised = Some (BizException (ascii ''parse response fail'')),
                        response_message = response', sent = [call]\<rparr>
                   | (None, response') \<Rightarrow>
                       \<lparr>raised = None, response_message = response', sent = [call]\<rparr>)))"

section \<open>Example inputs\<close>

text \<open>
  A context whose token has characters of one, two, three and four octets, and a world
  for it: messages are octet strings serialized as one length-delimited field, the clock
  stands at 1700000003.9 seconds, and the HTTP transport is left open.
\<close>

definition example_context :: "context" where
  "example_context = \<lparr>tenant_id = ascii ''tenant-42'', token = [0x73, 0xE9, 0x20AC, 0x1F511]\<rparr>"

definition example_serialize :: "bytes \<Rightarrow> bytes" where
  "example_serialize m = 0x0A # of_nat (length m) # m"

definition example_parse :: "bytes \<Rightarrow> bytes \<Rightarrow> pystr option \<times> bytes" where
  "example_parse old b =
     (case b of
        t # n # m \<Rightarrow>
          if t = 0x0A \<and> unat n = length m then (None, m)
          else (Some (ascii ''Error parsing message''), [])
      | _ \<Rightarrow> (Some (ascii ''Error parsing message''), []))"

text \<open>
  The compressor of the example world is the gzip encoder of compression level 0: a member
  of RFC 1952 (header, deflate stream, CRC-32 and length of the data) whose deflate stream
  is made of stored blocks of at most 65535 octets (RFC 1951, section 3.2.4).
  \<open>example_gunzip\<close> reads such a member back and checks the trailer.
\<close>

fun crc_bits :: "nat \<Rightarrow> w32 \<Rightarrow> w32" where
  "crc_bits 0 c = c"
| "crc_bits (Suc n) c = crc_bits n (if bit c 0 then drop_bit 1 c XOR 0xEDB88320 else drop_bit 1 c)"

definition crc_byte :: "w32 \<Rightarrow> byte \<Rightarrow> w32" where
  "crc_byte c b = crc_bits 8 (c XOR ucast b)"

definition crc32 :: "bytes \<Rightarrow> w32" where
  "crc32 bs = NOT (foldl crc_byte 0xFFFFFFFF bs)"

definition le16 :: "nat \<Rightarrow> bytes" where
  "le16 n = [of_nat (n mod 256), of_nat (n div 256)]"

definition le32 :: "w32 \<Rightarrow> bytes" where
  "le32 x = [ucast x, ucast (drop_bit 8 x), ucast (drop_bit 16 x), ucast (drop_bit 24 x)]"

function stored_blocks :: "bytes \<Rightarrow> bytes" where
  "stored_blocks d =
     (if length d \<le> 65535 then 0x01 # le16 (length d) @ map NOT (le16 (length d)) @ d
      else 0x00 # le16 65535 @ map NOT (le16 65535) @ take 65535 d @ stored_blocks (drop 65535 d))"
  by pat_completeness auto
termination
  by (relation "measure length") auto

declare stored_blocks.simps [simp del]

function inflate_stored :: "bytes \<Rightarrow> (bytes \<times> bytes) option" where
  "inflate_stored (h # l0 # l1 # n0 # n1 # r) =
     (let len = unat l0 + 256 * unat l1
      in if n0 = NOT l0 \<and> n1 = NOT l1 \<and> len \<le> length r then
           if h = 1 then Some (take len r, drop len r)
           else if h = 0 then
             (case inflate_stored (drop len r) of
                None \<Rightarrow> None
              | Some (d, rest) \<Rightarrow> Some (take len r @ d, rest))
           else None
         else None)"
| "inflate_stored [] = None"
| "inflate_stored [a] = None"
| "inflate_stored [a, b] = None"
| "inflate_stored [a, b, c] = None"
| "inflate_stored [a, b, c, d] = None"
  by pat_completeness auto
termination
  by (relation "measure length") auto

definition example_gzip :: "bytes \<Rightarrow> bytes" where
  "example_gzip d =
     [0x1F, 0x8B, 0x08, 0x00, 0x00, 0x00, 0x00, 0x00, 0x04, 0x03] @ stored_blocks d @
     le32 (crc32 d) @ le32 (of_nat (length d))"

definition example_gunzip :: "bytes \<Rightarrow> bytes option" where
  "example_gunzip bs =
     (if take 4 bs = [0x1F, 0x8B, 0x08, 0x00] \<and> 10 \<le> length bs then
        (case inflate_stored (drop 10 bs) of
           None \<Rightarrow> None
         | Some (d, trailer) \<Rightarrow>
             if trailer = le32 (crc32 d) @ le32 (of_nat (length d)) then Some d else None)
      else None)"

definition example_world :: "(http_call \<Rightarrow> pystr + http_response) \<Rightarrow> (bytes, bytes) world" where
  "example_world post =
     \<lparr>SerializeToString = example_serialize,
      ParseFromString = example_parse,
      gzip_compress = example_gzip,
      time_time = 17000000039 / 10,
      uuid1 = 0x123e4567e89b12d3a456426614174000,
      entropy = (\<lambda>i. 7 * i + 3),
      requests_post = post,
      unicode_lower = (\<lambda>s. s)\<rparr>"

definition example_url :: pystr where
  "example_url = ascii ''https://api.example.com/predict''"

definition internal_server_error :: http_response where
  "internal_server_error =
     \<lparr>status_code = 500, reason = ascii ''Internal Server Error'', content = Some [0x6F, 0x6F, 0x70, 0x73]\<rparr>"

definition ok_reply :: "bytes \<Rightarrow> http_response" where
  "ok_reply b = \<lparr>status_code = 200, reason = ascii ''OK'', content = Some b\<rparr>"

section \<open>The hash object computes SHA-256 of what it was fed\<close>

lemma blocks_append:
  "64 dvd length xs \<Longrightarrow> blocks (xs @ ys) = blocks xs @ blocks ys"
proof (induction xs rule: blocks.induct)
  case (1 m)
  show ?case
  proof (cases "length m < 64")
    case True
    with 1(2) have "m = []" by (auto elim: dvdE)
    then show ?thesis by (simp add: blocks.simps [of "[]"])
  next
    case False
    then have d: "64 dvd length (drop 64 m)" using 1(2) by simp
    have "blocks (m @ ys) = take 64 (m @ ys) # blocks (drop 64 (m @ ys))"
      using False by (subst blocks.simps) simp
    also have "\<dots> = take 64 m # blocks (drop 64 m @ ys)" using False by simp
    also have "\<dots> = take 64 m # blocks (drop 64 m) @ blocks ys"
      using 1(1) [OF False d] by simp
    also have "\<dots> = blocks m @ blocks ys"
      using False by (subst (2) blocks.simps) simp
    finally show ?thesis .
  qed
qed

lemma absorbed_new: "absorbed sha256_new []"
  by (simp add: absorbed_def sha256_new_def blocks.simps [of "[]"])

lemma absorbed_update:
  assumes "absorbed h m"
  shows "absorbed (update h d) (m @ d)"
proof -
  define q where "q = length m div 64"
  define p where "p = take (64 * q) m"
  define buf where "buf = drop (64 * q) m @ d"
  define k where "k = length buf div 64"
  have lp: "length p = 64 * q" by (simp add: p_def q_def)
  have md: "m @ d = p @ buf" by (simp add: p_def buf_def)
  have lmd: "length (m @ d) div 64 = q + k"
    unfolding md by (simp add: lp k_def)
  have tk: "take (64 * (q + k)) (m @ d) = p @ take (64 * k) buf"
    by (simp add: md lp distrib_left)
  have dr: "drop (64 * (q + k)) (m @ d) = drop (64 * k) buf"
    by (simp add: md lp distrib_left)
  have ch: "chain h = foldl compress H256 (blocks p)" and pe: "pending h = drop (64 * q) m"
    and fe: "fed h = length m"
    using assms by (simp_all add: absorbed_def p_def q_def)
  have pb: "pending h @ d = buf" by (simp add: pe buf_def)
  have upd: "update h d = \<lparr>chain = foldl compress (chain h) (blocks (take (64 * k) buf)),
      pending = drop (64 * k) buf, fed = fed h + length d\<rparr>"
    unfolding update_def Let_def pb k_def ..
  have "chain (update h d) = foldl compress (chain h) (blocks (take (64 * k) buf))"
    by (simp add: upd)
  also have "\<dots> = foldl compress H256 (blocks (p @ take (64 * k) buf))"
    by (simp add: ch blocks_append lp)
  finally have 1: "chain (update h d) = foldl compress H256 (blocks (take (64 * (q + k)) (m @ d)))"
    by (simp only: tk)
  have 2: "pending (update h d) = drop (64 * (q + k)) (m @ d)"
    unfolding dr by (simp add: upd)
  have 3: "fed (update h d) = length (m @ d)"
    by (simp add: upd fe)
  show ?thesis
    unfolding absorbed_def lmd using 1 2 3 by simp
qed

lemma absorbed_digest:
  assumes "absorbed h m"
  shows "digest h = sha256 m"
proof -
  define q where "q = length m div 64"
  have "blocks (take (64 * q) m @ (drop (64 * q) m @ padding (length m))) =
      blocks (take (64 * q) m) @ blocks (drop (64 * q) m @ padding (length m))"
    by (rule blocks_append) (simp add: q_def)
  moreover have "take (64 * q) m @ (drop (64 * q) m @ padding (length m)) = m @ padding (length m)"
    by simp
  ultimately have "blocks (m @ padding (length m)) =
      blocks (take (64 * q) m) @ blocks (drop (64 * q) m @ padding (length m))"
    by (simp only:)
  then show ?thesis
    using assms by (simp add: digest_def sha256_def absorbed_def q_def)
qed

text \<open>The padded message is a whole number of blocks, so \<open>blocks\<close> drops nothing of it.\<close>

lemma length_be64: "length (be64 x) = 8"
  by (simp add: be64_def)

lemma length_padding: "length (padding n) = 9 + (119 - n mod 64) mod 64"
  by (simp add: padding_def length_be64)

lemma padded_length: "64 dvd length (m @ padding (length m))"
proof -
  define q r where "q = length m div 64" and "r = length m mod 64"
  have n: "length m = 64 * q + r" and r: "r < 64" by (simp_all add: q_def r_def)
  have "length (m @ padding (length m)) = 64 * q + r + 9 + (119 - r) mod 64"
    using r by (simp add: length_padding n)
  also have "\<dots> = 64 * (q + (if r \<le> 55 then 1 else 2))"
  proof (cases "r \<le> 55")
    case True
    then have "(119 - r) mod 64 = 55 - r"
      using mod_if [of "119 - r" 64] by simp
    with True show ?thesis by simp
  next
    case False
    then have "(119 - r) mod 64 = 119 - r" using r by simp
    with False r show ?thesis by simp
  qed
  finally show ?thesis by simp
qed

text \<open>The digest has 32 octets and prints as 64 lowercase hexadecimal digits.\<close>

lemma length_foldl_round1: "length (foldl round1 v xs) = (if xs = [] then length v else 8)"
proof (induction xs arbitrary: v)
  case Nil
  show ?case by simp
next
  case (Cons x xs)
  have "length (round1 v x) = 8" by (simp add: round1_def Let_def)
  with Cons show ?case by simp
qed

lemma length_schedule: "length (schedule n w) = length w + n"
  by (induction n arbitrary: w) (simp_all add: Let_def)

lemma length_K256: "length K256 = 64"
  by (simp add: K256_def)

lemma length_compress: "length hs = 8 \<Longrightarrow> length (compress hs b) = 8"
proof -
  assume h: "length hs = 8"
  have "zip K256 (schedule 48 (be_words b)) \<noteq> []"
    using length_schedule [of 48 "be_words b"] length_K256
    by (metis length_zip less_numeral_extra(3) list.size(3) min_less_iff_conj zero_less_numeral add_gr_0)
  then show ?thesis
    by (simp add: compress_def rounds_def length_foldl_round1 h)
qed

lemma length_foldl_compress: "length hs = 8 \<Longrightarrow> length (foldl compress hs bs) = 8"
  by (induction bs arbitrary: hs) (simp_all add: length_compress)

lemma length_concat_be_bytes: "length (concat (map be_bytes ws)) = 4 * length ws"
  by (induction ws) (simp_all add: be_bytes_def)

lemma length_sha256: "length (sha256 m) = 32"
  by (simp add: sha256_def length_concat_be_bytes length_foldl_compress H256_def)

lemma length_hex_of_bytes: "length (hex_of_bytes bs) = 2 * length bs"
  by (induction bs) (simp_all add: hex_of_bytes_def hex_byte_def)

lemma is_lower_hex_digit: "d < 16 \<Longrightarrow> is_lower_hex (hex_digit d)"
  by (simp add: is_lower_hex_def hex_digit_def)

lemma lower_hex_byte: "list_all is_lower_hex (hex_byte b)"
proof -
  have "unat b < 256" using unsigned_less [of b] by simp
  then have "unat b div 16 < 16" by simp
  then show ?thesis by (simp add: hex_byte_def is_lower_hex_digit)
qed

lemma lower_hex_of_bytes: "list_all is_lower_hex (hex_of_bytes bs)"
  by (induction bs) (simp_all add: hex_of_bytes_def lower_hex_byte)

lemma hexdigest_absorbed: "absorbed h m \<Longrightarrow> hexdigest h = hex_of_bytes (sha256 m)"
  by (simp add: hexdigest_def absorbed_digest)

section \<open>Strings, numbers and identifiers\<close>

lemma decimal_value_snoc: "decimal_value (ds @ [d]) = 10 * decimal_value ds + (d - 48)"
  by (simp add: decimal_value_def)

lemma decimal_value_str_nat: "decimal_value (str_nat n) = n"
proof (induction n rule: str_nat.induct)
  case (1 n)
  show ?case
  proof (cases "n < 10")
    case True
    then show ?thesis by (subst str_nat.simps) (simp add: decimal_value_def)
  next
    case False
    then have "decimal_value (str_nat n) = 10 * decimal_value (str_nat (n div 10)) + n mod 10"
      by (subst str_nat.simps) (simp add: decimal_value_snoc)
    with 1 False show ?thesis by simp
  qed
qed

lemma digits_str_nat: "list_all is_digit (str_nat n)"
proof (induction n rule: str_nat.induct)
  case (1 n)
  show ?case
  proof (cases "n < 10")
    case True
    then show ?thesis by (subst str_nat.simps) (simp add: is_digit_def)
  next
    case False
    have "n mod 10 < 10" by simp
    then have "is_digit (48 + n mod 10)" unfolding is_digit_def by linarith
    with 1 False show ?thesis by (subst str_nat.simps) simp
  qed
qed

lemma str_nat_nonempty: "str_nat n \<noteq> []"
  by (subst str_nat.simps) simp

lemma str_int_nonneg: "0 \<le> i \<Longrightarrow> str_int i = str_nat (nat i)"
  by (simp add: str_int_def)

lemma int_of_float_floor: "0 \<le> x \<Longrightarrow> int_of_float x = \<lfloor>x\<rfloor>"
  by (simp add: int_of_float_def)

lemma int_of_float_bounds:
  "\<bar>of_int (int_of_float x)\<bar> \<le> \<bar>x\<bar> \<and> \<bar>x\<bar> < \<bar>of_int (int_of_float x)\<bar> + 1"
  unfolding int_of_float_def by (cases "0 \<le> x") (simp_all, linarith+)

lemma length_be128: "length (be128 u) = 16"
  by (simp add: be128_def)

lemma length_str_uuid: "length (str_uuid u) = 36"
  by (simp add: str_uuid_def Let_def length_hex_of_bytes length_be128)

lemma contains_iff: "contains sub s \<longleftrightarrow> (\<exists>p q. s = p @ sub @ q)"
proof (induction s)
  case Nil
  show ?case by auto
next
  case (Cons c cs)
  show ?case
  proof
    assume "contains sub (c # cs)"
    then consider "take (length sub) (c # cs) = sub" | "contains sub cs" by auto
    then show "\<exists>p q. c # cs = p @ sub @ q"
    proof cases
      case 1
      then have "c # cs = [] @ sub @ drop (length sub) (c # cs)"
        by (metis append_Nil append_take_drop_id)
      then show ?thesis by blast
    next
      case 2
      with Cons obtain p q where "cs = p @ sub @ q" by blast
      then have "c # cs = (c # p) @ sub @ q" by simp
      then show ?thesis by blast
    qed
  next
    assume "\<exists>p q. c # cs = p @ sub @ q"
    then obtain p q where pq: "c # cs = p @ sub @ q" by blast
    show "contains sub (c # cs)"
    proof (cases p)
      case Nil
      with pq have "take (length sub) (c # cs) = sub" by simp
      then show ?thesis by simp
    next
      case (Cons a p')
      with pq have "cs = p' @ sub @ q" by simp
      with Cons.IH show ?thesis by auto
    qed
  qed
qed

lemma format_plain:
  "123 \<notin> set t \<Longrightarrow> 125 \<notin> set t \<Longrightarrow> format t args = Inr t"
  by (induction t args rule: format.induct) auto


lemma utf8_char_scalar: "is_scalar_value c \<Longrightarrow> \<exists>b. utf8_char c = Inr b"
  by (auto simp: is_scalar_value_def utf8_char_def)

lemma utf8_char_not_scalar: "\<not> is_scalar_value c \<Longrightarrow> utf8_char c = Inl UnicodeEncodeError"
  by (auto simp: is_scalar_value_def utf8_char_def)

lemma utf8_char_error: "utf8_char c = Inl e \<Longrightarrow> e = UnicodeEncodeError"
  by (auto simp: utf8_char_def split: if_splits)

lemma encode_utf8_encodable: "encodable s \<Longrightarrow> \<exists>b. encode_utf8 s = Inr b"
proof (induction s)
  case Nil
  show ?case by simp
next
  case (Cons c s)
  then obtain b bs where "utf8_char c = Inr b" "encode_utf8 s = Inr bs"
    using utf8_char_scalar [of c] by (auto simp: encodable_def)
  then show ?case by simp
qed

lemma encode_utf8_error: "encode_utf8 s = Inl e \<Longrightarrow> e = UnicodeEncodeError"
  by (induction s) (auto split: sum.splits dest: utf8_char_error)

lemma encode_utf8_not_encodable: "\<not> encodable s \<Longrightarrow> encode_utf8 s = Inl UnicodeEncodeError"
proof (induction s)
  case Nil
  then show ?case by (simp add: encodable_def)
next
  case (Cons c s)
  show ?case
  proof (cases "is_scalar_value c")
    case True
    with Cons have "encode_utf8 s = Inl UnicodeEncodeError" by (simp add: encodable_def)
    then show ?thesis by (auto split: sum.splits dest: utf8_char_error)
  next
    case False
    then show ?thesis by (simp add: utf8_char_not_scalar)
  qed
qed

lemma encodable_digits: "list_all is_digit s \<Longrightarrow> encodable s"
  unfolding encodable_def by (induction s) (auto simp: is_digit_def is_scalar_value_def)

lemma encodable_alnum: "list_all is_alnum s \<Longrightarrow> encodable s"
  unfolding encodable_def by (induction s) (auto simp: is_alnum_def is_scalar_value_def)

lemma encodable_str_int: "encodable (str_int i)"
proof -
  have "encodable (str_nat n)" for n by (rule encodable_digits) (rule digits_str_nat)
  then show ?thesis by (simp add: str_int_def) (simp add: encodable_def is_scalar_value_def)
qed

lemma int_of_str_str_int: "int_of_str (str_int i) = i"
proof (cases "i < 0")
  case True
  then show ?thesis by (simp add: str_int_def int_of_str_def decimal_value_str_nat)
next
  case False
  obtain c ds where s: "str_nat (nat i) = c # ds"
    using str_nat_nonempty [of "nat i"] by (cases "str_nat (nat i)") auto
  have "is_digit c" using digits_str_nat [of "nat i"] by (simp add: s)
  then have "c \<noteq> 45" by (auto simp: is_digit_def)
  moreover have "decimal_value (c # ds) = nat i" using decimal_value_str_nat [of "nat i"] by (simp add: s)
  ultimately show ?thesis using False by (simp add: str_int_def int_of_str_def s)
qed

lemma join_singletons: "join (map (\<lambda>c. [c]) xs) = xs"
  by (induction xs) (simp_all add: join_def)

section \<open>Sampling without replacement\<close>

lemma pool_step:
  assumes d: "distinct ys" and j: "j < length ys"
  shows "distinct (butlast (ys[j := last ys])) \<and> set (butlast (ys[j := last ys])) = set ys - {ys ! j}"
proof -
  from j have "ys \<noteq> []" by auto
  then obtain as l where ys: "ys = as @ [l]" by (metis rev_exhaust)
  from d ys have das: "distinct as" and l: "l \<notin> set as" by auto
  show ?thesis
  proof (cases "j = length as")
    case True
    then have "ys[j := last ys] = ys" by (simp add: ys)
    moreover have "ys ! j = l" using True by (simp add: ys)
    ultimately show ?thesis using das l by (auto simp: ys)
  next
    case False
    with j ys have jl: "j < length as" by simp
    then have u: "butlast (ys[j := last ys]) = as[j := l]"
      by (simp add: ys list_update_append)
    have yj: "ys ! j = as ! j" using jl by (simp add: ys nth_append)
    have "distinct (as[j := l])" using das l by (simp add: distinct_list_update)
    moreover have "set (as[j := l]) = insert l (set as - {as ! j})"
      using das jl by (rule set_update_distinct)
    moreover have "as ! j \<noteq> l" using jl l by (metis nth_mem)
    ultimately show ?thesis unfolding u yj by (auto simp: ys)
  qed
qed

lemma take_pool_step:
  assumes "j < m" and "m \<le> length pool"
  shows "take (m - 1) (pool[j := pool ! (m - 1)]) = butlast ((take m pool)[j := last (take m pool)])"
proof -
  have ne: "take m pool \<noteq> []" and len: "length (take m pool) = m"
    using assms by auto
  have "last (take m pool) = take m pool ! (m - 1)"
    using last_conv_nth [OF ne] by (simp only: len)
  also have "\<dots> = pool ! (m - 1)"
    using assms by (intro nth_take) simp
  finally have "last (take m pool) = pool ! (m - 1)" .
  moreover have "butlast ((take m pool)[j := pool ! (m - 1)]) = take (m - 1) ((take m pool)[j := pool ! (m - 1)])"
    using assms by (simp add: butlast_conv_take)
  moreover have "take (m - 1) ((take m pool)[j := pool ! (m - 1)]) = take (m - 1) (pool[j := pool ! (m - 1)])"
    by (simp add: take_update_swap min_def)
  ultimately show ?thesis by simp
qed

lemma sample_pool_distinct:
  "distinct (take (n - i) pool) \<Longrightarrow> i + k \<le> n \<Longrightarrow> n \<le> length pool \<Longrightarrow>
   length (sample_pool rng pool n i k) = k \<and> distinct (sample_pool rng pool n i k) \<and>
   set (sample_pool rng pool n i k) \<subseteq> set (take (n - i) pool)"
proof (induction k arbitrary: i pool)
  case 0
  show ?case by simp
next
  case (Suc k)
  define m where "m = n - i"
  define j where "j = randbelow rng i m"
  define pool' where "pool' = pool[j := pool ! (m - 1)]"
  from Suc.prems have m: "0 < m" "m \<le> length pool" by (simp_all add: m_def)
  then have j: "j < m" by (simp add: j_def randbelow_def)
  have jt: "j < length (take m pool)" using j m by simp
  have tk: "take (n - Suc i) pool' = butlast ((take m pool)[j := last (take m pool)])"
    using take_pool_step [OF j m(2)] by (simp add: pool'_def m_def)
  from pool_step [OF _ jt] Suc.prems(1)
  have st: "distinct (take (n - Suc i) pool')"
    "set (take (n - Suc i) pool') = set (take m pool) - {pool ! j}"
    unfolding tk using j by (simp_all add: m_def)
  have "length (sample_pool rng pool' n (Suc i) k) = k \<and>
      distinct (sample_pool rng pool' n (Suc i) k) \<and>
      set (sample_pool rng pool' n (Suc i) k) \<subseteq> set (take (n - Suc i) pool')"
    using Suc.prems by (intro Suc.IH st(1)) (simp_all add: pool'_def)
  moreover have "pool ! j \<in> set (take m pool)"
    using jt by (metis nth_mem nth_take j)
  moreover have "sample_pool rng pool n i (Suc k) = pool ! j # sample_pool rng pool' n (Suc i) k"
    by (simp add: Let_def j_def m_def pool'_def)
  ultimately show ?case unfolding st(2) m_def [symmetric] by auto
qed

lemma sample_distinct:
  assumes "distinct population" and "k \<le> length population"
  shows "\<exists>xs. sample rng population k = Inr xs \<and> length xs = k \<and> distinct xs \<and> set xs \<subseteq> set population"
  using sample_pool_distinct [of "length population" 0 population k rng] assms
  by (simp add: sample_def)

lemma length_alphabet: "length (ascii_letters @ digits) = 62"
  by (simp add: ascii_letters_def ascii_lowercase_def ascii_uppercase_def digits_def ascii_def)

lemma distinct_alphabet: "distinct (ascii_letters @ digits)"
  by (simp add: ascii_letters_def ascii_lowercase_def ascii_uppercase_def digits_def ascii_def)

lemma alnum_alphabet: "list_all is_alnum (ascii_letters @ digits)"
  by (simp add: ascii_letters_def ascii_lowercase_def ascii_uppercase_def digits_def ascii_def is_alnum_def)

section \<open>The headers of a call\<close>

lemma sample_alphabet:
  "\<exists>nonce. sample g (ascii_letters @ digits) 8 = Inr nonce \<and> length nonce = 8 \<and> distinct nonce \<and>
     list_all is_alnum nonce"
proof -
  have "8 \<le> length (ascii_letters @ digits)"
    unfolding length_alphabet by simp
  from sample_distinct [OF distinct_alphabet this, of g]
  obtain xs where xs: "sample g (ascii_letters @ digits) 8 = Inr xs" "length xs = 8" "distinct xs"
    "set xs \<subseteq> set (ascii_letters @ digits)"
    by blast
  have "list_all is_alnum xs"
    using alnum_alphabet xs(4) unfolding list_all_iff by blast
  with xs show ?thesis by blast
qed

lemma build_headers_signable:
  assumes "signable ctx"
  shows "\<exists>nonce signature.
      sample (entropy w) (ascii_letters @ digits) 8 = Inr nonce \<and>
      cal_signature ctx req_bytes (str_int (int_of_float (time_time w))) nonce = Inr signature \<and>
      build_headers ctx w options req_bytes =
        Inr (Map.empty
             (ascii ''Content-Encoding'' \<mapsto> ascii ''gzip'',
              ascii ''Accept-Encoding'' \<mapsto> ascii ''gzip'',
              ascii ''Content-Type'' \<mapsto> ascii ''application/x-protobuf'',
              ascii ''Accept'' \<mapsto> ascii ''application/x-protobuf'',
              ascii ''Request-Id'' \<mapsto>
                (case request_id options of
                   Some r \<Rightarrow> if length r > 0 then r else str_uuid (uuid1 w)
                 | None \<Rightarrow> str_uuid (uuid1 w)),
              ascii ''Tenant-Id'' \<mapsto> tenant_id ctx,
              ascii ''Tenant-Ts'' \<mapsto> str_int (int_of_float (time_time w)),
              ascii ''Tenant-Nonce'' \<mapsto> nonce,
              ascii ''Tenant-Signature'' \<mapsto> signature))"
proof -
  let ?ts = "str_int (int_of_float (time_time w))"
  obtain nonce where n: "sample (entropy w) (ascii_letters @ digits) 8 = Inr nonce"
    "list_all is_alnum nonce"
    using sample_alphabet [of "entropy w"] by blast
  obtain tk tn where e: "encode_utf8 (token ctx) = Inr tk" "encode_utf8 (tenant_id ctx) = Inr tn"
    using assms encode_utf8_encodable unfolding signable_def by blast
  obtain t where t: "encode_utf8 ?ts = Inr t"
    using encode_utf8_encodable [OF encodable_str_int] by blast
  obtain c where c: "encode_utf8 nonce = Inr c"
    using encode_utf8_encodable [OF encodable_alnum [OF n(2)]] by blast
  have s: "cal_signature ctx req_bytes ?ts nonce =
      Inr (hexdigest (update (update (update (update (update sha256_new tk) req_bytes) tn) t) c))"
    by (simp add: cal_signature_def Let_def e t c)
  show ?thesis
    using n(1) s
    by (cases "request_id options")
      (simp_all add: build_headers_def with_auth_headers_def Let_def join_singletons)
qed

lemma cal_signature_not_signable:
  assumes "\<not> signable ctx"
  shows "cal_signature ctx req_bytes ts nonce = Inl UnicodeEncodeError"
proof (cases "encodable (token ctx)")
  case False
  then show ?thesis
    by (simp add: cal_signature_def Let_def encode_utf8_not_encodable)
next
  case True
  with assms have "encode_utf8 (tenant_id ctx) = Inl UnicodeEncodeError"
    by (simp add: signable_def encode_utf8_not_encodable)
  moreover obtain tk where "encode_utf8 (token ctx) = Inr tk"
    using encode_utf8_encodable [OF True] by blast
  ultimately show ?thesis
    by (simp add: cal_signature_def Let_def)
qed

lemma build_headers_not_signable:
  assumes "\<not> signable ctx"
  shows "build_headers ctx w options req_bytes = Inl UnicodeEncodeError"
proof -
  obtain nonce where "sample (entropy w) (ascii_letters @ digits) 8 = Inr nonce"
    using sample_alphabet [of "entropy w"] by blast
  then show ?thesis
    by (simp add: build_headers_def with_auth_headers_def Let_def
        cal_signature_not_signable [OF assms])
qed

lemma build_headers_nonce:
  assumes "build_headers ctx w options req_bytes = Inr h"
    and "h (ascii ''Tenant-Nonce'') = Some nonce"
  shows "length nonce = 8 \<and> distinct nonce \<and> list_all is_alnum nonce"
proof -
  have s: "signable ctx"
    using assms(1) build_headers_not_signable [of ctx w options req_bytes] by auto
  obtain n where n: "length n = 8" "distinct n" "list_all is_alnum n"
    "sample (entropy w) (ascii_letters @ digits) 8 = Inr n"
    using sample_alphabet [of "entropy w"] by blast
  from build_headers_signable [OF s, of w req_bytes options] assms n(4)
  have "nonce = n" by (auto simp: ascii_def)
  with n show ?thesis by simp
qed

lemma str_int_500: "str_int 500 = ascii ''500''"
  by (simp add: str_int_def str_nat.simps ascii_def)

section \<open>One exchange\<close>

text \<open>
  \<open>do_request\<close> sends at most one HTTP request, and its outcome is determined by what the
  transport answers to that request.
\<close>

lemma format_code_msg: "format (ascii ''code:%d msg:%s'') args = Inr (ascii ''code:%d msg:%s'')"
  by (rule format_plain) (simp_all add: ascii_def)

lemma do_http_request_call:
  "snd (do_http_request w url headers req_bytes t) =
     \<lparr>call_url = url, call_headers = headers, call_data = req_bytes,
      call_timeout = map_option total_seconds t\<rparr>"
  by (simp add: do_http_request_def Let_def format_code_msg split: sum.splits option.splits)

lemma do_http_request_result:
  "fst (do_http_request w url headers req_bytes t) =
     (case requests_post w (snd (do_http_request w url headers req_bytes t)) of
        Inl e \<Rightarrow>
          if contains (ascii ''timeout'') (lower (unicode_lower w) e)
          then Inl (NetException e) else Inl (BizException e)
      | Inr rsp \<Rightarrow>
          if status_code rsp \<noteq> 200 then Inl (NetException (ascii ''code:%d msg:%s''))
          else Inr (content rsp))"
  unfolding do_http_request_call
  by (cases t)
    (auto simp: do_http_request_def Let_def format_code_msg SUCCESS_HTTP_CODE_def split: sum.splits)

lemma do_request_sent:
  "sent (do_request ctx w url request response opts) =
     (case build_headers ctx w (conv_to_options opts) (gzip_compress w (SerializeToString w request)) of
        Inl e \<Rightarrow> []
      | Inr headers \<Rightarrow>
          [\<lparr>call_url = url, call_headers = headers,
            call_data = gzip_compress w (SerializeToString w request),
            call_timeout = map_option total_seconds (timeout (conv_to_options opts))\<rparr>])"
proof -
  have "snd p = c \<Longrightarrow> (case p of (Inl e, call) \<Rightarrow> f e call | (Inr None, call) \<Rightarrow> g call
        | (Inr (Some b), call) \<Rightarrow> h b call) =
      (case fst p of Inl e \<Rightarrow> f e c | Inr None \<Rightarrow> g c | Inr (Some b) \<Rightarrow> h b c)"
    for p :: "(pyexn + bytes option) \<times> http_call" and c f g h
    by (cases p) (auto split: sum.splits option.splits)
  note * = this [OF do_http_request_call]
  show ?thesis
    by (simp add: do_request_def Let_def * split: sum.splits option.splits prod.splits)
qed

lemma do_request_sent_signable:
  assumes "signable ctx"
  shows "\<exists>call. sent (do_request ctx w url request response opts) = [call]"
proof -
  obtain h where "build_headers ctx w (conv_to_options opts) (gzip_compress w (SerializeToString w request)) = Inr h"
    using build_headers_signable [OF assms] by blast
  then show ?thesis by (simp add: do_request_sent)
qed

lemma do_request_posted:
  assumes "call \<in> set (sent (do_request ctx w url request response opts))"
  shows "do_request ctx w url request response opts =
     (case requests_post w call of
        Inl e \<Rightarrow>
          \<lparr>raised = Some (if contains (ascii ''timeout'') (lower (unicode_lower w) e)
                           then NetException e else BizException e),
           response_message = response, sent = [call]\<rparr>
      | Inr rsp \<Rightarrow>
          if status_code rsp \<noteq> 200 then
            \<lparr>raised = Some (NetException (ascii ''code:%d msg:%s'')),
             response_message = response, sent = [call]\<rparr>
          else
            (case content rsp of
               None \<Rightarrow> \<lparr>raised = None, response_message = response, sent = [call]\<rparr>
             | Some rsp_bytes \<Rightarrow>
                 (case fst (ParseFromString w response rsp_bytes) of
                    Some e \<Rightarrow>
                      \<lparr>raised = Some (BizException (ascii ''parse response fail'')),
                       response_message = snd (ParseFromString w response rsp_bytes), sent = [call]\<rparr>
                  | None \<Rightarrow>
                      \<lparr>raised = None,
                       response_message = snd (ParseFromString w response rsp_bytes), sent = [call]\<rparr>)))"
proof -
  let ?body = "gzip_compress w (SerializeToString w request)"
  let ?options = "conv_to_options opts"
  from assms obtain h where h: "build_headers ctx w ?options ?body = Inr h"
    by (cases "build_headers ctx w ?options ?body") (simp_all add: do_request_sent)
  let ?r = "do_http_request w url h ?body (timeout ?options)"
  from assms h have c: "snd ?r = call"
    by (simp add: do_request_sent do_http_request_call)
  obtain res where r: "?r = (res, call)" using c by (cases ?r) auto
  have res: "res = (case requests_post w call of
        Inl e \<Rightarrow>
          if contains (ascii ''timeout'') (lower (unicode_lower w) e)
          then Inl (NetException e) else Inl (BizException e)
      | Inr rsp \<Rightarrow>
          if status_code rsp \<noteq> 200 then Inl (NetException (ascii ''code:%d msg:%s''))
          else Inr (content rsp))"
    using do_http_request_result [of w url h ?body "timeout ?options"] by (simp add: r)
  show ?thesis
    by (simp add: do_request_def Let_def h r res split: sum.splits option.splits prod.splits)
qed

lemma signable_example: "signable example_context"
  by (simp add: signable_def encodable_def example_context_def is_scalar_value_def ascii_def)

section \<open>The example compressor\<close>

lemma le16_read:
  assumes "n \<le> 65535"
  shows "unat (of_nat (n mod 256) :: byte) + 256 * unat (of_nat (n div 256) :: byte) = n"
proof -
  have "n div 256 < 256" using assms by simp
  then have "unat (of_nat (n div 256) :: byte) = n div 256"
    by (simp add: unat_of_nat)
  moreover have "unat (of_nat (n mod 256) :: byte) = n mod 256"
    by (simp add: unat_of_nat)
  ultimately show ?thesis by simp
qed

lemma inflate_block:
  assumes "unat l0 + 256 * unat l1 = length blk"
  shows "inflate_stored (h # l0 # l1 # NOT l0 # NOT l1 # (blk @ r)) =
     (if h = 1 then Some (blk, r)
      else if h = 0 then
        (case inflate_stored r of None \<Rightarrow> None | Some (d, rest) \<Rightarrow> Some (blk @ d, rest))
      else None)"
  by (simp add: Let_def assms split: option.splits)

lemma stored_block_eq:
  "h # le16 (length blk) @ map NOT (le16 (length blk)) @ blk @ r =
   h # of_nat (length blk mod 256) # of_nat (length blk div 256) #
     NOT (of_nat (length blk mod 256)) # NOT (of_nat (length blk div 256)) # (blk @ r)"
  by (simp add: le16_def)

lemma inflate_stored_blocks: "inflate_stored (stored_blocks d @ rest) = Some (d, rest)"
proof (induction d rule: stored_blocks.induct)
  case (1 d)
  show ?case
  proof (cases "length d \<le> 65535")
    case True
    have "stored_blocks d @ rest = 0x01 # le16 (length d) @ map NOT (le16 (length d)) @ d @ rest"
      using True by (subst stored_blocks.simps) simp
    then show ?thesis
      unfolding stored_block_eq by (simp only: inflate_block [OF le16_read [OF True]]) simp
  next
    case False
    define blk where "blk = take 65535 d"
    have l: "length blk = 65535" using False by (simp add: blk_def)
    then have le: "length blk \<le> 65535" by simp
    have "stored_blocks d @ rest =
        0x00 # le16 (length blk) @ map NOT (le16 (length blk)) @ blk @ (stored_blocks (drop 65535 d) @ rest)"
      using False by (subst stored_blocks.simps) (simp add: l blk_def)
    moreover have "inflate_stored (stored_blocks (drop 65535 d) @ rest) = Some (drop 65535 d, rest)"
      using 1 [OF False] .
    moreover have "blk @ drop 65535 d = d" by (simp add: blk_def)
    ultimately show ?thesis
      unfolding stored_block_eq by (simp only: inflate_block [OF le16_read [OF le]]) simp
  qed
qed

lemma gunzip_gzip: "example_gunzip (example_gzip d) = Some d"
  by (simp add: example_gunzip_def example_gzip_def inflate_stored_blocks)

lemma crc_bits_numeral:
  "crc_bits (numeral k) c =
     crc_bits (pred_numeral k) (if bit c 0 then drop_bit 1 c XOR 0xEDB88320 else drop_bit 1 c)"
  by (simp add: numeral_eq_Suc)

lemma crc32_example: "crc32 [0x0A, 3, 1, 2, 3] = 0x34DA195D"
  by (simp add: crc32_def crc_byte_def crc_bits_numeral bit_0)

lemma stored_example: "stored_blocks [0x0A, 3, 1, 2, 3] = [0x01, 0x05, 0x00, 0xFA, 0xFF, 0x0A, 0x03, 0x01, 0x02, 0x03]"
  by (simp add: stored_blocks.simps le16_def)

lemma gzip_example:
  "example_gzip [0x0A, 3, 1, 2, 3] =
     [0x1F, 0x8B, 0x08, 0x00, 0x00, 0x00, 0x00, 0x00, 0x04, 0x03, 0x01, 0x05, 0x00, 0xFA, 0xFF,
      0x0A, 0x03, 0x01, 0x02, 0x03, 0x5D, 0x19, 0xDA, 0x34, 0x05, 0x00, 0x00, 0x00]"
  by (simp add: example_gzip_def stored_example crc32_example le32_def)

text \<open>The example world, evaluated.\<close>

lemma str_nat_numeral:
  "str_nat (numeral k) =
     (if numeral k < (10::nat) then [48 + numeral k] else str_nat (numeral k div 10) @ [48 + numeral k mod 10])"
  by (rule str_nat.simps)

lemma str_nat_small: "n < 10 \<Longrightarrow> str_nat n = [48 + n]"
  by (subst str_nat.simps) simp

lemma example_uuid:
  "str_uuid 0x123e4567e89b12d3a456426614174000 = ascii ''123e4567-e89b-12d3-a456-426614174000''"
  by code_simp

lemma example_ts: "str_int (int_of_float (17000000039 / 10)) = ascii ''1700000003''"
  by (simp add: int_of_float_def str_int_def str_nat_numeral str_nat_small ascii_def)

lemma example_nonce: "sample (\<lambda>i. 7 * i + 3) (ascii_letters @ digits) 8 = Inr (ascii ''dkryFMT0'')"
  by code_simp

lemma example_nonce_zero: "sample (\<lambda>i. 0) (ascii_letters @ digits) 8 = Inr (ascii ''a9876543'')"
  by code_simp

text \<open>
  The digest of the example of C1, as \<open>hashlib\<close> computes it: the 25 octets are the token,
  the body, the tenant id, the timestamp and the nonce of that example.
\<close>

lemma sha256_example:
  "hex_of_bytes (sha256 [0x73, 0xC3, 0xA9, 0xE2, 0x82, 0xAC, 0xF0, 0x9F, 0x94, 0x91, 0x1F, 0x8B,
      0x74, 0x65, 0x6E, 0x61, 0x6E, 0x74, 0x2D, 0x34, 0x32, 0x31, 0x37, 0x61, 0x5A]) =
   ascii ''c61448b275cf65985e83ce6e57dd42767f1772e80867d012468b49548e569877''"
  by code_simp

section \<open>The claims\<close>

text \<open>
  C1. For every token, tenant id, compressed request body, timestamp string and nonce
  string, the signature is the SHA-256 digest of the concatenation, in this order, of the
  UTF-8 encoding of the token, the raw body octets, the UTF-8 encoding of the tenant id,
  of the timestamp and of the nonce, printed as lowercase hexadecimal digits. The
  encodings exist for strings without surrogates; the hash object was fed the five parts
  one after the other and yields the digest of the whole.
\<close>

theorem cal_signature_sha256:
  assumes "encode_utf8 (token ctx) = Inr tk"
    and "encode_utf8 (tenant_id ctx) = Inr tn"
    and "encode_utf8 ts = Inr t"
    and "encode_utf8 nonce = Inr n"
  shows "cal_signature ctx req_bytes ts nonce = Inr (hex_of_bytes (sha256 (tk @ req_bytes @ tn @ t @ n)))
    \<and> length (hex_of_bytes (sha256 (tk @ req_bytes @ tn @ t @ n))) = 64
    \<and> list_all is_lower_hex (hex_of_bytes (sha256 (tk @ req_bytes @ tn @ t @ n)))"
proof -
  let ?h = "update (update (update (update (update sha256_new tk) req_bytes) tn) t) n"
  have "absorbed ?h ((((([] @ tk) @ req_bytes) @ tn) @ t) @ n)"
    by (intro absorbed_update absorbed_new)
  then have "absorbed ?h (tk @ req_bytes @ tn @ t @ n)" by simp
  then have "hexdigest ?h = hex_of_bytes (sha256 (tk @ req_bytes @ tn @ t @ n))"
    by (rule hexdigest_absorbed)
  then have "cal_signature ctx req_bytes ts nonce = Inr (hex_of_bytes (sha256 (tk @ req_bytes @ tn @ t @ n)))"
    using assms by (simp add: cal_signature_def Let_def)
  then show ?thesis
    by (simp add: length_hex_of_bytes length_sha256 lower_hex_of_bytes)
qed

theorem cal_signature_sha256_witness:
  "encode_utf8 (token example_context) = Inr [0x73, 0xC3, 0xA9, 0xE2, 0x82, 0xAC, 0xF0, 0x9F, 0x94, 0x91]
   \<and> encode_utf8 (tenant_id example_context) = Inr [0x74, 0x65, 0x6E, 0x61, 0x6E, 0x74, 0x2D, 0x34, 0x32]
   \<and> encode_utf8 (ascii ''17'') = Inr [0x31, 0x37]
   \<and> encode_utf8 (ascii ''aZ'') = Inr [0x61, 0x5A]
   \<and> cal_signature example_context [0x1F, 0x8B] (ascii ''17'') (ascii ''aZ'') =
       Inr (ascii ''c61448b275cf65985e83ce6e57dd42767f1772e80867d012468b49548e569877'')"
proof -
  have 1: "encode_utf8 (token example_context) = Inr [0x73, 0xC3, 0xA9, 0xE2, 0x82, 0xAC, 0xF0, 0x9F, 0x94, 0x91]"
    by (simp add: example_context_def utf8_char_def)
  have 2: "encode_utf8 (tenant_id example_context) = Inr [0x74, 0x65, 0x6E, 0x61, 0x6E, 0x74, 0x2D, 0x34, 0x32]"
    by (simp add: example_context_def utf8_char_def ascii_def)
  have 3: "encode_utf8 (ascii ''17'') = Inr [0x31, 0x37]"
    by (simp add: utf8_char_def ascii_def)
  have 4: "encode_utf8 (ascii ''aZ'') = Inr [0x61, 0x5A]"
    by (simp add: utf8_char_def ascii_def)
  from cal_signature_sha256 [OF 1 2 3 4, of "[0x1F, 0x8B]"]
  have "cal_signature example_context [0x1F, 0x8B] (ascii ''17'') (ascii ''aZ'') =
      Inr (ascii ''c61448b275cf65985e83ce6e57dd42767f1772e80867d012468b49548e569877'')"
    by (simp only: append.simps sha256_example)
  with 1 2 3 4 show ?thesis by blast
qed

text \<open>
  C2. When the exchange completes with a status other than 200, \<open>do_request\<close> is claimed to
  raise a \<open>NetException\<close> whose message contains the status code and the reason phrase.
  The source builds the message with \<open>"code:%d msg:%s".format(status_code, reason)\<close>; the
  template has no replacement field, so \<open>format\<close> returns it as it is. At status 500 with
  reason \<open>Internal Server Error\<close> the message is the template, and neither \<open>500\<close> nor the
  reason occurs in it.
\<close>

theorem non_200_message_is_template:
  "raised (do_request example_context (example_world (\<lambda>call. Inr internal_server_error))
      example_url [1, 2, 3] [] []) = Some (NetException (ascii ''code:%d msg:%s'')) \<and>
   \<not> contains (str_int (status_code internal_server_error)) (ascii ''code:%d msg:%s'') \<and>
   \<not> contains (reason internal_server_error) (ascii ''code:%d msg:%s'')"
proof -
  let ?w = "example_world (\<lambda>call. Inr internal_server_error)"
  obtain c where c: "c \<in> set (sent (do_request example_context ?w example_url [1, 2, 3] [] []))"
    using do_request_sent_signable [OF signable_example, of ?w example_url "[1, 2, 3]" "[]" "[]"] by auto
  have p: "requests_post ?w c = Inr internal_server_error"
    by (simp add: example_world_def)
  have s: "status_code internal_server_error \<noteq> 200"
    by (simp add: internal_server_error_def)
  have "raised (do_request example_context ?w example_url [1, 2, 3] [] []) =
      Some (NetException (ascii ''code:%d msg:%s''))"
    by (simp add: do_request_posted [OF c] p s)
  moreover have "\<not> contains (str_int (status_code internal_server_error)) (ascii ''code:%d msg:%s'')"
    by (simp add: internal_server_error_def str_int_500) (simp add: ascii_def)
  moreover have "\<not> contains (reason internal_server_error) (ascii ''code:%d msg:%s'')"
    by (simp add: internal_server_error_def ascii_def)
  ultimately show ?thesis by blast
qed

text \<open>
  C3. When the HTTP POST raises: if the text of the failure, in lower case, contains
  \<open>timeout\<close>, \<open>do_request\<close> raises a \<open>NetException\<close> with that text, and otherwise a
  \<open>BizException\<close> with that text. In both cases an exception is raised, and it is one of
  the two.
\<close>

theorem transport_failure_classified:
  assumes "call \<in> set (sent (do_request ctx w url request response opts))"
    and "requests_post w call = Inl msg"
  shows "(contains (ascii ''timeout'') (lower (unicode_lower w) msg) \<longrightarrow>
           raised (do_request ctx w url request response opts) = Some (NetException msg)) \<and>
         (\<not> contains (ascii ''timeout'') (lower (unicode_lower w) msg) \<longrightarrow>
           raised (do_request ctx w url request response opts) = Some (BizException msg))"
  using assms(2) by (simp add: do_request_posted [OF assms(1)])

theorem transport_failure_classified_witness:
  "raised (do_request example_context (example_world (\<lambda>call. Inl (ascii ''Connect TIMEOUT (5s)'')))
      example_url [1, 2, 3] [] []) = Some (NetException (ascii ''Connect TIMEOUT (5s)'')) \<and>
   raised (do_request example_context (example_world (\<lambda>call. Inl (ascii ''Connection refused'')))
      example_url [1, 2, 3] [] []) = Some (BizException (ascii ''Connection refused''))"
proof -
  let ?w1 = "example_world (\<lambda>call. Inl (ascii ''Connect TIMEOUT (5s)''))"
  let ?w2 = "example_world (\<lambda>call. Inl (ascii ''Connection refused''))"
  obtain c1 where c1: "c1 \<in> set (sent (do_request example_context ?w1 example_url [1, 2, 3] [] []))"
    using do_request_sent_signable [OF signable_example, of ?w1 example_url "[1, 2, 3]" "[]" "[]"] by auto
  obtain c2 where c2: "c2 \<in> set (sent (do_request example_context ?w2 example_url [1, 2, 3] [] []))"
    using do_request_sent_signable [OF signable_example, of ?w2 example_url "[1, 2, 3]" "[]" "[]"] by auto
  have p1: "requests_post ?w1 c1 = Inl (ascii ''Connect TIMEOUT (5s)'')"
    and p2: "requests_post ?w2 c2 = Inl (ascii ''Connection refused'')"
    by (simp_all add: example_world_def)
  have t1: "contains (ascii ''timeout'') (lower (unicode_lower ?w1) (ascii ''Connect TIMEOUT (5s)''))"
    by (simp add: ascii_def lower_def ascii_lower_def)
  have t2: "\<not> contains (ascii ''timeout'') (lower (unicode_lower ?w2) (ascii ''Connection refused''))"
    by (simp add: ascii_def lower_def ascii_lower_def)
  from transport_failure_classified [OF c1 p1] transport_failure_classified [OF c2 p2] t1 t2
  show ?thesis by blast
qed

text \<open>
  C4. When the exchange returns status 200 with a body: if \<open>ParseFromString\<close> fails on it,
  \<open>do_request\<close> raises a \<open>BizException\<close>; if it succeeds, \<open>do_request\<close> raises nothing and
  the response message is what \<open>ParseFromString\<close> made of it.
\<close>

theorem success_reply_parsed:
  assumes "call \<in> set (sent (do_request ctx w url request response opts))"
    and "requests_post w call = Inr rsp"
    and "status_code rsp = 200"
    and "content rsp = Some rsp_bytes"
  shows "(fst (ParseFromString w response rsp_bytes) \<noteq> None \<longrightarrow>
           raised (do_request ctx w url request response opts) =
             Some (BizException (ascii ''parse response fail''))) \<and>
         (fst (ParseFromString w response rsp_bytes) = None \<longrightarrow>
           raised (do_request ctx w url request response opts) = None \<and>
           response_message (do_request ctx w url request response opts) =
             snd (ParseFromString w response rsp_bytes))"
  using assms(2-4)
  by (cases "fst (ParseFromString w response rsp_bytes)") (simp_all add: do_request_posted [OF assms(1)])

theorem success_reply_parsed_witness:
  "raised (do_request example_context (example_world (\<lambda>call. Inr (ok_reply [0xFF])))
      example_url [1, 2, 3] [9] []) = Some (BizException (ascii ''parse response fail'')) \<and>
   raised (do_request example_context (example_world (\<lambda>call. Inr (ok_reply [0x0A, 2, 7, 8])))
      example_url [1, 2, 3] [9] []) = None \<and>
   response_message (do_request example_context (example_world (\<lambda>call. Inr (ok_reply [0x0A, 2, 7, 8])))
      example_url [1, 2, 3] [9] []) = [7, 8]"
proof -
  let ?w1 = "example_world (\<lambda>call. Inr (ok_reply [0xFF]))"
  let ?w2 = "example_world (\<lambda>call. Inr (ok_reply [0x0A, 2, 7, 8]))"
  obtain c1 where c1: "c1 \<in> set (sent (do_request example_context ?w1 example_url [1, 2, 3] [9] []))"
    using do_request_sent_signable [OF signable_example, of ?w1 example_url "[1, 2, 3]" "[9]" "[]"] by auto
  obtain c2 where c2: "c2 \<in> set (sent (do_request example_context ?w2 example_url [1, 2, 3] [9] []))"
    using do_request_sent_signable [OF signable_example, of ?w2 example_url "[1, 2, 3]" "[9]" "[]"] by auto
  have p1: "requests_post ?w1 c1 = Inr (ok_reply [0xFF])"
    and p2: "requests_post ?w2 c2 = Inr (ok_reply [0x0A, 2, 7, 8])"
    by (simp_all add: example_world_def)
  have s: "status_code (ok_reply b) = 200" "content (ok_reply b) = Some b" for b
    by (simp_all add: ok_reply_def)
  have f1: "fst (ParseFromString ?w1 [9] [0xFF]) \<noteq> None"
    by (simp add: example_world_def example_parse_def)
  have f2: "ParseFromString ?w2 [9] [0x0A, 2, 7, 8] = (None, [7, 8])"
    by (simp add: example_world_def example_parse_def)
  from success_reply_parsed [OF c1 p1 s] success_reply_parsed [OF c2 p2 s] f1 f2
  show ?thesis by simp
qed

text \<open>
  C5. When the exchange completes with a status other than 200, \<open>do_request\<close> raises a
  \<open>NetException\<close> and the response message of the caller is left as it was.
\<close>

theorem non_200_leaves_response:
  assumes "call \<in> set (sent (do_request ctx w url request response opts))"
    and "requests_post w call = Inr rsp"
    and "status_code rsp \<noteq> 200"
  shows "(\<exists>msg. raised (do_request ctx w url request response opts) = Some (NetException msg)) \<and>
         response_message (do_request ctx w url request response opts) = response"
  using assms(2,3) by (simp add: do_request_posted [OF assms(1)])

theorem non_200_leaves_response_witness:
  "(\<exists>msg. raised (do_request example_context (example_world (\<lambda>call. Inr internal_server_error))
      example_url [1, 2, 3] [9] []) = Some (NetException msg)) \<and>
   response_message (do_request example_context (example_world (\<lambda>call. Inr internal_server_error))
      example_url [1, 2, 3] [9] []) = [9]"
proof -
  let ?w = "example_world (\<lambda>call. Inr internal_server_error)"
  obtain c where c: "c \<in> set (sent (do_request example_context ?w example_url [1, 2, 3] [9] []))"
    using do_request_sent_signable [OF signable_example, of ?w example_url "[1, 2, 3]" "[9]" "[]"] by auto
  have p: "requests_post ?w c = Inr internal_server_error"
    by (simp add: example_world_def)
  have s: "status_code internal_server_error \<noteq> 200"
    by (simp add: internal_server_error_def)
  from non_200_leaves_response [OF c p s] show ?thesis .
qed

text \<open>
  C6. The body of the request sent is \<open>gzip.compress\<close> of the serialized message, whatever
  its size, and decompressing it gives the serialized message back: for any decompressor
  that inverts \<open>gzip.compress\<close>, as the one of the library does. A request is sent whenever
  the context is signable.
\<close>

theorem body_is_gzip_of_serialized:
  assumes "\<forall>x. gunzip (gzip_compress w x) = Some x"
  shows "(\<forall>call \<in> set (sent (do_request ctx w url request response opts)).
            call_data call = gzip_compress w (SerializeToString w request) \<and>
            gunzip (call_data call) = Some (SerializeToString w request)) \<and>
         (signable ctx \<longrightarrow> length (sent (do_request ctx w url request response opts)) = 1)"
proof -
  have "call_data call = gzip_compress w (SerializeToString w request)"
    if "call \<in> set (sent (do_request ctx w url request response opts))" for call
    using that by (auto simp: do_request_sent split: sum.splits)
  moreover have "length (sent (do_request ctx w url request response opts)) = 1" if "signable ctx"
    using do_request_sent_signable [OF that, of w url request response opts] by auto
  ultimately show ?thesis using assms by simp
qed

theorem body_is_gzip_of_serialized_witness:
  "(\<forall>x. example_gunzip (example_gzip x) = Some x) \<and> signable example_context \<and>
   (\<exists>call. sent (do_request example_context (example_world (\<lambda>call. Inr (ok_reply []))) example_url [1, 2, 3] [] []) = [call] \<and>
      call_data call = example_gzip [0x0A, 3, 1, 2, 3] \<and>
      example_gunzip (call_data call) = Some [0x0A, 3, 1, 2, 3])"
proof -
  let ?w = "example_world (\<lambda>call. Inr (ok_reply []))"
  have g: "\<forall>x. example_gunzip (gzip_compress ?w x) = Some x"
    by (simp add: example_world_def gunzip_gzip)
  have s: "SerializeToString ?w [1, 2, 3] = [0x0A, 3, 1, 2, 3]" "gzip_compress ?w = example_gzip"
    by (simp_all add: example_world_def example_serialize_def)
  note t = body_is_gzip_of_serialized [OF g, of example_context example_url "[1, 2, 3]" "[]" "[]"]
  from t signable_example
  obtain call where c: "sent (do_request example_context ?w example_url [1, 2, 3] [] []) = [call]"
    by (auto simp: length_Suc_conv)
  from t have "\<forall>call \<in> set [call].
      call_data call = gzip_compress ?w (SerializeToString ?w [1, 2, 3]) \<and>
      example_gunzip (call_data call) = Some (SerializeToString ?w [1, 2, 3])"
    unfolding c by (rule conjunct1)
  then have d: "call_data call = example_gzip [0x0A, 3, 1, 2, 3] \<and>
    example_gunzip (call_data call) = Some [0x0A, 3, 1, 2, 3]"
    unfolding s by fastforce
  have "\<forall>x. example_gunzip (example_gzip x) = Some x"
    by (simp add: gunzip_gzip)
  with c d signable_example show ?thesis by blast
qed

text \<open>
  C7. The headers have a \<open>Request-Id\<close>: the request id of the options when that is a
  non-empty string, and otherwise the text of a UUID generated in the call, which is not
  empty.
\<close>

theorem request_id_header:
  assumes "signable ctx"
  shows "\<exists>h. build_headers ctx w options req_bytes = Inr h \<and>
     (\<forall>r. request_id options = Some r \<and> r \<noteq> [] \<longrightarrow> h (ascii ''Request-Id'') = Some r) \<and>
     (request_id options = None \<or> request_id options = Some [] \<longrightarrow>
        h (ascii ''Request-Id'') = Some (str_uuid (uuid1 w)) \<and> str_uuid (uuid1 w) \<noteq> [])"
proof -
  have "str_uuid (uuid1 w) \<noteq> []"
    using length_str_uuid [of "uuid1 w"] by auto
  with build_headers_signable [OF assms, of w req_bytes options] show ?thesis
    by (auto simp: ascii_def)
qed

theorem request_id_header_witness:
  "signable example_context \<and>
   (\<exists>h. build_headers example_context (example_world (\<lambda>call. Inr (ok_reply [])))
          (conv_to_options [with_request_id (ascii ''req-0001'')]) [1, 2, 3] = Inr h \<and>
        h (ascii ''Request-Id'') = Some (ascii ''req-0001'')) \<and>
   (\<exists>h. build_headers example_context (example_world (\<lambda>call. Inr (ok_reply [])))
          (conv_to_options []) [1, 2, 3] = Inr h \<and>
        h (ascii ''Request-Id'') = Some (ascii ''123e4567-e89b-12d3-a456-426614174000'')) \<and>
   (\<exists>h. build_headers example_context (example_world (\<lambda>call. Inr (ok_reply [])))
          (conv_to_options [with_request_id []]) [1, 2, 3] = Inr h \<and>
        h (ascii ''Request-Id'') = Some (ascii ''123e4567-e89b-12d3-a456-426614174000''))"
proof -
  let ?w = "example_world (\<lambda>call. Inr (ok_reply []))"
  have r1: "request_id (conv_to_options [with_request_id (ascii ''req-0001'')]) = Some (ascii ''req-0001'')"
    and n1: "ascii ''req-0001'' \<noteq> []"
    and r2: "request_id (conv_to_options []) = None"
    and r3: "request_id (conv_to_options [with_request_id []]) = Some []"
    by (simp_all add: conv_to_options_def ascii_def)
  have u: "str_uuid (uuid1 ?w) = ascii ''123e4567-e89b-12d3-a456-426614174000''"
    by (simp add: example_world_def example_uuid)
  from request_id_header [OF signable_example, of ?w "conv_to_options [with_request_id (ascii ''req-0001'')]" "[1, 2, 3]"]
    r1 n1
  have 1: "\<exists>h. build_headers example_context ?w
          (conv_to_options [with_request_id (ascii ''req-0001'')]) [1, 2, 3] = Inr h \<and>
        h (ascii ''Request-Id'') = Some (ascii ''req-0001'')"
    by blast
  from request_id_header [OF signable_example, of ?w "conv_to_options []" "[1, 2, 3]"] r2
  have 2: "\<exists>h. build_headers example_context ?w (conv_to_options []) [1, 2, 3] = Inr h \<and>
        h (ascii ''Request-Id'') = Some (ascii ''123e4567-e89b-12d3-a456-426614174000'')"
    unfolding u by blast
  from request_id_header [OF signable_example, of ?w "conv_to_options [with_request_id []]" "[1, 2, 3]"] r3
  have 3: "\<exists>h. build_headers example_context ?w (conv_to_options [with_request_id []]) [1, 2, 3] = Inr h \<and>
        h (ascii ''Request-Id'') = Some (ascii ''123e4567-e89b-12d3-a456-426614174000'')"
    unfolding u by blast
  from signable_example 1 2 3 show ?thesis by blast
qed

text \<open>
  C8. The headers have \<open>Content-Encoding\<close> and \<open>Accept-Encoding\<close> \<open>gzip\<close>, \<open>Content-Type\<close>
  and \<open>Accept\<close> \<open>application/x-protobuf\<close>, \<open>Tenant-Id\<close> the tenant id of the context, and
  \<open>Tenant-Ts\<close> the decimal string of the clock reading with its fraction dropped.
\<close>

theorem fixed_and_tenant_headers:
  assumes "signable ctx"
  shows "\<exists>h ts. build_headers ctx w options req_bytes = Inr h \<and>
     h (ascii ''Content-Encoding'') = Some (ascii ''gzip'') \<and>
     h (ascii ''Accept-Encoding'') = Some (ascii ''gzip'') \<and>
     h (ascii ''Content-Type'') = Some (ascii ''application/x-protobuf'') \<and>
     h (ascii ''Accept'') = Some (ascii ''application/x-protobuf'') \<and>
     h (ascii ''Tenant-Id'') = Some (tenant_id ctx) \<and>
     h (ascii ''Tenant-Ts'') = Some ts \<and>
     int_of_str ts = (if 0 \<le> time_time w then \<lfloor>time_time w\<rfloor> else \<lceil>time_time w\<rceil>) \<and>
     (0 \<le> time_time w \<longrightarrow> list_all is_digit ts)"
proof -
  let ?ts = "str_int (int_of_float (time_time w))"
  have "int_of_str ?ts = (if 0 \<le> time_time w then \<lfloor>time_time w\<rfloor> else \<lceil>time_time w\<rceil>)"
    by (simp add: int_of_str_str_int) (simp add: int_of_float_def)
  moreover have "list_all is_digit ?ts" if "0 \<le> time_time w"
    using that by (simp add: int_of_float_def str_int_def digits_str_nat)
  ultimately show ?thesis
    using build_headers_signable [OF assms, of w req_bytes options]
    by (auto simp: ascii_def)
qed

theorem fixed_and_tenant_headers_witness:
  "signable example_context \<and> 0 \<le> time_time (example_world (\<lambda>call. Inr (ok_reply []))) \<and>
   (\<exists>h ts. build_headers example_context (example_world (\<lambda>call. Inr (ok_reply [])))
          (conv_to_options []) [1, 2, 3] = Inr h \<and>
     h (ascii ''Content-Encoding'') = Some (ascii ''gzip'') \<and>
     h (ascii ''Accept-Encoding'') = Some (ascii ''gzip'') \<and>
     h (ascii ''Content-Type'') = Some (ascii ''application/x-protobuf'') \<and>
     h (ascii ''Accept'') = Some (ascii ''application/x-protobuf'') \<and>
     h (ascii ''Tenant-Id'') = Some (ascii ''tenant-42'') \<and>
     h (ascii ''Tenant-Ts'') = Some ts \<and> int_of_str ts = 1700000003 \<and> list_all is_digit ts)"
proof -
  let ?w = "example_world (\<lambda>call. Inr (ok_reply []))"
  have t: "time_time ?w = 17000000039 / 10" by (simp add: example_world_def)
  have p: "0 \<le> time_time ?w" by (simp add: t)
  have f: "\<lfloor>time_time ?w\<rfloor> = 1700000003" by (simp add: t)
  have i: "tenant_id example_context = ascii ''tenant-42''" by (simp add: example_context_def)
  from fixed_and_tenant_headers [OF signable_example, of ?w "conv_to_options []" "[1, 2, 3]"]
  show ?thesis
    unfolding i using signable_example p f by auto
qed

text \<open>
  C9. \<open>Tenant-Nonce\<close> is a string of 8 characters of \<open>[A-Za-z0-9]\<close>, drawn in the call from
  the random source, and the signature in \<open>Tenant-Signature\<close> is computed from this nonce
  and from the timestamp in \<open>Tenant-Ts\<close>.
\<close>

theorem nonce_header:
  assumes "signable ctx"
  shows "\<exists>h nonce ts signature. build_headers ctx w options req_bytes = Inr h \<and>
     h (ascii ''Tenant-Nonce'') = Some nonce \<and> length nonce = 8 \<and> list_all is_alnum nonce \<and>
     sample (entropy w) (ascii_letters @ digits) 8 = Inr nonce \<and>
     h (ascii ''Tenant-Ts'') = Some ts \<and>
     h (ascii ''Tenant-Signature'') = Some signature \<and>
     cal_signature ctx req_bytes ts nonce = Inr signature"
proof -
  from build_headers_signable [OF assms, of w req_bytes options]
  obtain nonce signature h where *:
    "sample (entropy w) (ascii_letters @ digits) 8 = Inr nonce"
    "cal_signature ctx req_bytes (str_int (int_of_float (time_time w))) nonce = Inr signature"
    "build_headers ctx w options req_bytes = Inr h"
    "h (ascii ''Tenant-Nonce'') = Some nonce"
    "h (ascii ''Tenant-Ts'') = Some (str_int (int_of_float (time_time w)))"
    "h (ascii ''Tenant-Signature'') = Some signature"
    by (auto simp: ascii_def)
  from build_headers_nonce [OF *(3,4)] * show ?thesis by blast
qed

theorem nonce_header_witness:
  "signable example_context \<and>
   (\<exists>h ts signature. build_headers example_context (example_world (\<lambda>call. Inr (ok_reply [])))
          (conv_to_options []) [1, 2, 3] = Inr h \<and>
     h (ascii ''Tenant-Nonce'') = Some (ascii ''dkryFMT0'') \<and>
     h (ascii ''Tenant-Ts'') = Some ts \<and>
     h (ascii ''Tenant-Signature'') = Some signature \<and>
     cal_signature example_context [1, 2, 3] ts (ascii ''dkryFMT0'') = Inr signature) \<and>
   (\<exists>h. build_headers example_context (example_world (\<lambda>call. Inr (ok_reply [])) \<lparr>entropy := \<lambda>i. 0\<rparr>)
          (conv_to_options []) [1, 2, 3] = Inr h \<and>
     h (ascii ''Tenant-Nonce'') = Some (ascii ''a9876543''))"
proof -
  let ?w = "example_world (\<lambda>call. Inr (ok_reply []))"
  let ?v = "?w \<lparr>entropy := \<lambda>i. 0\<rparr>"
  have e: "entropy ?w = (\<lambda>i. 7 * i + 3)" "entropy ?v = (\<lambda>i. 0)"
    by (simp_all add: example_world_def)
  from nonce_header [OF signable_example, of ?w "conv_to_options []" "[1, 2, 3]"]
  have 1: "\<exists>h ts signature. build_headers example_context ?w (conv_to_options []) [1, 2, 3] = Inr h \<and>
     h (ascii ''Tenant-Nonce'') = Some (ascii ''dkryFMT0'') \<and>
     h (ascii ''Tenant-Ts'') = Some ts \<and>
     h (ascii ''Tenant-Signature'') = Some signature \<and>
     cal_signature example_context [1, 2, 3] ts (ascii ''dkryFMT0'') = Inr signature"
    unfolding e example_nonce by auto
  from nonce_header [OF signable_example, of ?v "conv_to_options []" "[1, 2, 3]"]
  have 2: "\<exists>h. build_headers example_context ?v (conv_to_options []) [1, 2, 3] = Inr h \<and>
     h (ascii ''Tenant-Nonce'') = Some (ascii ''a9876543'')"
    unfolding e example_nonce_zero by auto
  from signable_example 1 2 show ?thesis by blast
qed

text \<open>
  C10. The 8 characters of \<open>Tenant-Nonce\<close> are pairwise distinct, since they are sampled
  without replacement; so the nonces form a proper subset of the strings of 8 characters of
  \<open>[A-Za-z0-9]\<close>.
\<close>

theorem nonce_characters_distinct:
  assumes "signable ctx"
  shows "(\<exists>h nonce. build_headers ctx w options req_bytes = Inr h \<and>
            h (ascii ''Tenant-Nonce'') = Some nonce \<and> distinct nonce) \<and>
         {nonce. \<exists>ctx' (w' :: ('req, 'rsp) world) options' req_bytes' h.
            build_headers ctx' w' options' req_bytes' = Inr h \<and> h (ascii ''Tenant-Nonce'') = Some nonce}
           \<subset> {s. length s = 8 \<and> list_all is_alnum s}"
proof -
  let ?N = "{nonce. \<exists>ctx' (w' :: ('req, 'rsp) world) options' req_bytes' h.
            build_headers ctx' w' options' req_bytes' = Inr h \<and> h (ascii ''Tenant-Nonce'') = Some nonce}"
  from build_headers_signable [OF assms, of w req_bytes options]
  obtain h nonce where *: "build_headers ctx w options req_bytes = Inr h"
    "h (ascii ''Tenant-Nonce'') = Some nonce"
    by (auto simp: ascii_def)
  have 1: "\<exists>h nonce. build_headers ctx w options req_bytes = Inr h \<and>
            h (ascii ''Tenant-Nonce'') = Some nonce \<and> distinct nonce"
    using build_headers_nonce [OF *] * by blast
  have 2: "?N \<subseteq> {s. length s = 8 \<and> list_all is_alnum s}"
    using build_headers_nonce by blast
  have "replicate 8 97 \<notin> ?N"
  proof
    assume "replicate 8 97 \<in> ?N"
    then have "distinct (replicate 8 (97 :: nat))" using build_headers_nonce by blast
    then show False by (simp add: eval_nat_numeral)
  qed
  moreover have "replicate 8 97 \<in> {s. length s = 8 \<and> list_all is_alnum s}"
    by (simp add: is_alnum_def list_all_iff)
  ultimately have "?N \<noteq> {s. length s = 8 \<and> list_all is_alnum s}" by blast
  with 1 2 show ?thesis by blast
qed

theorem nonce_characters_distinct_witness:
  "signable example_context \<and>
   (\<exists>h nonce. build_headers example_context (example_world (\<lambda>call. Inr (ok_reply [])))
          (conv_to_options []) [1, 2, 3] = Inr h \<and>
      h (ascii ''Tenant-Nonce'') = Some nonce \<and> distinct nonce) \<and>
   {nonce. \<exists>ctx' (w' :: (bytes, bytes) world) options' req_bytes' h.
      build_headers ctx' w' options' req_bytes' = Inr h \<and> h (ascii ''Tenant-Nonce'') = Some nonce}
     \<subset> {s. length s = 8 \<and> list_all is_alnum s}"
  using nonce_characters_distinct [OF signable_example,
      of "example_world (\<lambda>call. Inr (ok_reply []))" "conv_to_options []" "[1, 2, 3]"]
    signable_example
  by blast

end
